theory Spec2Isabelle
  imports Main "HOL-Library.AList"
begin

section \<open>Token metadata and the token map\<close>

text \<open>
  \<^verbatim>\<open>MinimalTokenInfo\<close> has two required fields and two optional ones; an optional field
  that is absent (JavaScript's \<^verbatim>\<open>undefined\<close>) is \<open>None\<close>.
\<close>

record MinimalTokenInfo =
  decimals :: int
  address :: string
  symbol :: "string option"
  logoURI :: "string option"

text \<open>
  \<^verbatim>\<open>TokenInfo\<close> is the interface of the token-lists package: an object with the fields of
  \<^verbatim>\<open>MinimalTokenInfo\<close> (the symbol always present) and further ones (chain id, name,
  tags, extensions), which stay abstract as the extension \<open>'x\<close> of the record. Stored in
  a \<^verbatim>\<open>TokenMap\<close>, a token is seen at the type \<^verbatim>\<open>MinimalTokenInfo\<close>:
  \<open>MinimalTokenInfo.truncate\<close>.
\<close>

type_synonym 'x TokenInfo = "'x MinimalTokenInfo_scheme"

text \<open>A thrown \<^verbatim>\<open>Error\<close> or a rejected promise, with its message.\<close>

datatype error = Error string

text \<open>
  \<^verbatim>\<open>Map<string | null, MinimalTokenInfo>\<close>: the key \<^verbatim>\<open>null\<close> is \<open>None\<close>. A JavaScript
  \<^verbatim>\<open>Map\<close> keeps its entries in insertion order, one per key; \<^verbatim>\<open>set\<close> on a key already
  present replaces the value in place and on a new key appends the entry.
\<close>

type_synonym TokenMap = "(string option \<times> MinimalTokenInfo) list"

definition Map_new :: TokenMap where
  "Map_new = []"

definition Map_has :: "TokenMap \<Rightarrow> string option \<Rightarrow> bool" where
  "Map_has m k = (k \<in> set (map fst m))"

definition Map_get :: "TokenMap \<Rightarrow> string option \<Rightarrow> MinimalTokenInfo option" where
  "Map_get m k = map_of m k"

definition Map_set :: "TokenMap \<Rightarrow> string option \<Rightarrow> MinimalTokenInfo \<Rightarrow> TokenMap" where
  "Map_set m k v = AList.update k v m"

definition Map_keys :: "TokenMap \<Rightarrow> string option list" where
  "Map_keys m = map fst m"

definition Map_size :: "TokenMap \<Rightarrow> nat" where
  "Map_size m = length m"

section \<open>Building the map from a token list\<close>

text \<open>
  \<^verbatim>\<open>utils.getAddress\<close> belongs to the ethers library: it returns the checksummed form of
  an address and throws on a string that is not an address. It is a parameter
  \<open>getAddress :: string \<Rightarrow> error + string\<close> of the model.

  \<^verbatim>\<open>for (const token of tokenList) { res.set(utils.getAddress(token.address), token); }\<close>
\<close>

fun tokenMap_loop ::
  "(string \<Rightarrow> error + string) \<Rightarrow> 'x TokenInfo list \<Rightarrow> TokenMap \<Rightarrow> error + TokenMap" where
  "tokenMap_loop getAddress [] res = Inr res"
| "tokenMap_loop getAddress (token # rest) res =
     (case getAddress (address token) of
        Inl e \<Rightarrow> Inl e
      | Inr a \<Rightarrow> tokenMap_loop getAddress rest
                  (Map_set res (Some a) (MinimalTokenInfo.truncate token)))"

definition tokenMap ::
  "(string \<Rightarrow> error + string) \<Rightarrow> 'x TokenInfo list \<Rightarrow> error + TokenMap" where
  "tokenMap getAddress tokenList = tokenMap_loop getAddress tokenList Map_new"

text \<open>
  An address string is in checksummed form when \<^verbatim>\<open>utils.getAddress\<close> returns it as it
  is; \<^verbatim>\<open>null\<close> is no address.
\<close>

fun checksummed_key :: "(string \<Rightarrow> error + string) \<Rightarrow> string option \<Rightarrow> bool" where
  "checksummed_key getAddress None = False"
| "checksummed_key getAddress (Some a) = (getAddress a = Inr a)"

section \<open>Selecting the token list of a network\<close>

definition networkMap :: "(int \<times> string) list" where
  "networkMap = [(1, ''mainnet''), (4, ''rinkeby''), (100, ''xdai'')]"

text \<open>A value interpolated into a template literal; \<^verbatim>\<open>undefined\<close> prints as its name.\<close>

fun interpolate :: "string option \<Rightarrow> string" where
  "interpolate None = ''undefined''"
| "interpolate (Some s) = s"

text \<open>
  What \<^verbatim>\<open>fetchTokenList\<close> reads from outside: the ethers function, the outcome of
  \<^verbatim>\<open>(await (await fetch(url)).json()).tokens\<close> for a URL (a rejection, or a token list),
  and the two bundled lists \<^verbatim>\<open>rinkeby\<close> and \<^verbatim>\<open>xdaiTokens.tokens\<close>.
\<close>

record 'x env =
  getAddress :: "string \<Rightarrow> error + string"
  fetch_tokens :: "string \<Rightarrow> error + 'x TokenInfo list"
  rinkeby :: "'x TokenInfo list"
  xdaiTokens :: "'x TokenInfo list"

definition mainnetTokenURL :: string where
  "mainnetTokenURL = ''https://tokens.coingecko.com/uniswap/all.json''"

text \<open>
  The chain id is a JavaScript number compared with \<^verbatim>\<open>===\<close> against 1, 4 and 100; it is
  modelled as an integer. A throw inside the async function rejects the returned
  promise: \<open>Inl\<close>. The \<^verbatim>\<open>console.error\<close> before the throw is not modelled.
\<close>

definition fetchTokenList :: "'x env \<Rightarrow> int \<Rightarrow> error + TokenMap" where
  "fetchTokenList env chainId =
     (if chainId = 1 then
        (case fetch_tokens env mainnetTokenURL of
           Inl e \<Rightarrow> Inl e
         | Inr tokens \<Rightarrow> tokenMap (getAddress env) tokens)
      else if chainId = 4 then tokenMap (getAddress env) (rinkeby env)
      else if chainId = 100 then tokenMap (getAddress env) (xdaiTokens env)
      else Inl (Error (''Unimplemented token list for ''
                        @ interpolate (map_of networkMap chainId) @ '' network'')))"

section \<open>Lookup with fallback to the contract\<close>

text \<open>
  The ERC-20 contract behind an address, as \<^verbatim>\<open>erc20Instance(tokenAddress, web3Provider)\<close>
  gives it: each call is a promise that rejects (\<open>Inl\<close>) or resolves (\<open>Inr\<close>).
\<close>

record erc20 =
  decimals_call :: "string \<Rightarrow> error + int"
  symbol_call :: "string \<Rightarrow> error + string"

text \<open>\<^verbatim>\<open>promise.catch((reason) => undefined)\<close>\<close>

fun catch_undefined :: "'e + 'a \<Rightarrow> 'a option" where
  "catch_undefined (Inl reason) = None"
| "catch_undefined (Inr v) = Some v"

text \<open>
  The two pieces of React state of \<^verbatim>\<open>useTokenList\<close>, which are also what the hook
  returns: \<^verbatim>\<open>{ tokenList, isLoading }\<close>.
\<close>

record hook_state =
  tokenList :: TokenMap
  isLoading :: bool

text \<open>
  The state a call of \<^verbatim>\<open>getTokenInfo\<close> works on: the hook's state, whose map the call
  mutates in place, and the log of the contract calls made so far.
\<close>

datatype contract_call = DecimalsCall string | SymbolCall string

record provider_state = hook_state +
  calls :: "contract_call list"

text \<open>
  \<^verbatim>\<open>tokenList\<close> is the hook's state, a \<^verbatim>\<open>Map\<close> from the first render on, so the
  optional chaining \<^verbatim>\<open>tokenList?.\<close> always reaches the map.
\<close>

definition getTokenInfo ::
  "erc20 \<Rightarrow> provider_state \<Rightarrow> string \<Rightarrow> MinimalTokenInfo option \<times> provider_state" where
  "getTokenInfo tokenContract s tokenAddress =
     (if Map_has (tokenList s) (Some tokenAddress) then
        (Map_get (tokenList s) (Some tokenAddress), s)
      else
        let dec = catch_undefined (decimals_call tokenContract tokenAddress);
            sym = catch_undefined (symbol_call tokenContract tokenAddress);
            s1 = s\<lparr>calls := calls s @ [DecimalsCall tokenAddress, SymbolCall tokenAddress]\<rparr>
        in (case dec of
              Some d \<Rightarrow>
                (Some \<lparr>decimals = d, address = tokenAddress, symbol = sym, logoURI = None\<rparr>,
                 s1\<lparr>tokenList := Map_set (tokenList s1) (Some tokenAddress)
                    \<lparr>decimals = d, address = tokenAddress, symbol = sym, logoURI = None\<rparr>\<rparr>)
            | None \<Rightarrow> (None, s1)))"

section \<open>The hook that fetches the list\<close>

text \<open>
  Every run of the effect of \<^verbatim>\<open>useTokenList\<close> declares its own variable
  \<^verbatim>\<open>isMounted\<close>, which the handler passed to \<^verbatim>\<open>then\<close> and the cleanup function of
  that run capture. A run is kept with the chain id it passed to \<^verbatim>\<open>fetchTokenList\<close>
  and with whether the promise of that call has settled.
\<close>

record effect_run =
  isMounted :: bool
  fetched_chain :: int
  settled :: bool

text \<open>
  One mounted instance of the hook: its two pieces of state, the runs of its effect in
  the order they started, and what React keeps for the effect, namely the dependency
  \<^verbatim>\<open>safe.chainId\<close> of the last run, the run whose cleanup function is registered, and
  whether the component has been unmounted.
\<close>

record component = hook_state +
  runs :: "effect_run list"
  deps :: "int option"
  cleanup :: "nat option"
  unmounted :: bool

text \<open>\<^verbatim>\<open>useState(new Map())\<close>, \<^verbatim>\<open>useState(false)\<close>, and no effect run yet.\<close>

definition initial :: component where
  "initial = \<lparr>tokenList = Map_new, isLoading = False, runs = [], deps = None, cleanup = None,
              unmounted = False\<rparr>"

text \<open>
  The body of the effect:
  \<^verbatim>\<open>let isMounted = true; setIsLoading(true); fetchTokenList(safe.chainId).then(...)\<close>.
  The new run has the number \<open>length (runs s)\<close>.
\<close>

definition effect :: "int \<Rightarrow> component \<Rightarrow> component" where
  "effect c s =
     s\<lparr>isLoading := True,
       runs := runs s @ [\<lparr>isMounted = True, fetched_chain = c, settled = False\<rparr>]\<rparr>"

text \<open>The cleanup function returned by run \<open>i\<close>: \<^verbatim>\<open>isMounted = false\<close>.\<close>

definition callback :: "nat \<Rightarrow> component \<Rightarrow> component" where
  "callback i s =
     (if i < length (runs s) then s\<lparr>runs := (runs s)[i := (runs s ! i)\<lparr>isMounted := False\<rparr>]\<rparr>
      else s)"

text \<open>
  The handler of run \<open>i\<close>:
  \<^verbatim>\<open>(result) => { if (isMounted) { setTokenList(result); setIsLoading(false); } }\<close>
\<close>

definition then_handler :: "nat \<Rightarrow> TokenMap \<Rightarrow> component \<Rightarrow> component" where
  "then_handler i result s =
     (if i < length (runs s) \<and> isMounted (runs s ! i)
      then s\<lparr>tokenList := result, isLoading := False\<rparr>
      else s)"

text \<open>
  What happens to the component, in any order: it renders with some value of
  \<^verbatim>\<open>safe.chainId\<close>, it is unmounted, or the promise of a run settles.

  After a render React runs the effect when the dependency \<^verbatim>\<open>[safe.chainId]\<close> differs
  from that of the last run (always, after the first render), and calls the cleanup
  function of the previous run before. On unmount it calls the cleanup function of the
  last run. A promise settles once; when it resolves, the handler runs with the map, and
  when it rejects, no handler runs, as \<^verbatim>\<open>then\<close> was given none for that.
\<close>

datatype event = Render int | Unmount | Settle nat

definition run_cleanup :: "component \<Rightarrow> component" where
  "run_cleanup s = (case cleanup s of None \<Rightarrow> s | Some i \<Rightarrow> callback i s)"

fun step :: "'x env \<Rightarrow> event \<Rightarrow> component \<Rightarrow> component" where
  "step env (Render c) s =
     (if unmounted s \<or> deps s = Some c then s
      else (effect c (run_cleanup s))\<lparr>deps := Some c, cleanup := Some (length (runs s))\<rparr>)"
| "step env Unmount s =
     (if unmounted s then s else (run_cleanup s)\<lparr>cleanup := None, unmounted := True\<rparr>)"
| "step env (Settle i) s =
     (if i < length (runs s) \<and> \<not> settled (runs s ! i) then
        let s1 = s\<lparr>runs := (runs s)[i := (runs s ! i)\<lparr>settled := True\<rparr>]\<rparr>
        in (case fetchTokenList env (fetched_chain (runs s ! i)) of
              Inl e \<Rightarrow> s1
            | Inr result \<Rightarrow> then_handler i result s1)
      else s)"

fun run :: "'x env \<Rightarrow> event list \<Rightarrow> component \<Rightarrow> component" where
  "run env [] s = s"
| "run env (ev # evs) s = run env evs (step env ev s)"

text \<open>The chain ids of the renders among some events, in order.\<close>

fun renders :: "event list \<Rightarrow> int list" where
  "renders [] = []"
| "renders (Render c # evs) = c # renders evs"
| "renders (ev # evs) = renders evs"

text \<open>
  Run \<open>i\<close> is cancelled when its variable \<^verbatim>\<open>isMounted\<close> is false. In a well-formed
  component the registered cleanup function belongs to a run that exists, and none is
  registered after the unmount.
\<close>

definition cancelled :: "nat \<Rightarrow> component \<Rightarrow> bool" where
  "cancelled i s = (i < length (runs s) \<and> \<not> isMounted (runs s ! i))"

definition well_formed :: "component \<Rightarrow> bool" where
  "well_formed s =
     (case cleanup s of None \<Rightarrow> True | Some i \<Rightarrow> i < length (runs s) \<and> \<not> unmounted s)"

section \<open>Example data\<close>

text \<open>
  Two mainnet tokens, DAI and GNO, with their addresses in lower case and in checksummed
  form, and the values of \<^verbatim>\<open>utils.getAddress\<close> on these four strings; every other string
  is treated as not an address.
\<close>

definition dai_lower :: string where
  "dai_lower = ''0x6b175474e89094c44da98b954eedeac495271d0f''"

definition dai_checksum :: string where
  "dai_checksum = ''0x6B175474E89094C44Da98b954EedeAC495271d0F''"

definition gno_lower :: string where
  "gno_lower = ''0x6810e776880c02933d47db1b9fc05908e5386b96''"

definition gno_checksum :: string where
  "gno_checksum = ''0x6810e776880C02933D47DB1b9fc05908e5386b96''"

definition example_getAddress :: "string \<Rightarrow> error + string" where
  "example_getAddress a =
     (if a = dai_lower \<or> a = dai_checksum then Inr dai_checksum
      else if a = gno_lower \<or> a = gno_checksum then Inr gno_checksum
      else Inl (Error ''invalid address''))"

definition dai :: MinimalTokenInfo where
  "dai = \<lparr>decimals = 18, address = dai_lower, symbol = Some ''DAI'', logoURI = None\<rparr>"

definition dai2 :: MinimalTokenInfo where
  "dai2 = \<lparr>decimals = 18, address = dai_checksum, symbol = Some ''Dai Stablecoin'',
           logoURI = Some ''https://example.org/dai.png''\<rparr>"

definition gno :: MinimalTokenInfo where
  "gno = \<lparr>decimals = 18, address = gno_checksum, symbol = Some ''GNO'', logoURI = None\<rparr>"

definition example_env :: "unit env" where
  "example_env = \<lparr>getAddress = example_getAddress,
                   fetch_tokens = (\<lambda>url. if url = mainnetTokenURL then Inr [dai, gno, dai2]
                                         else Inl (Error ''Failed to fetch'')),
                   rinkeby = [gno],
                   xdaiTokens = [dai2]\<rparr>"

text \<open>
  A chain where the DAI and GNO contracts answer both calls, under either spelling of
  their address, the contract at \<open>decimals_only\<close> answers \<^verbatim>\<open>decimals()\<close> and rejects
  \<^verbatim>\<open>symbol()\<close>, and no other address holds a token contract.
\<close>

definition zero_address :: string where
  "zero_address = ''0x0000000000000000000000000000000000000000''"

definition decimals_only :: string where
  "decimals_only = ''0x0000000000000000000000000000000000000001''"

definition example_erc20 :: erc20 where
  "example_erc20 =
     \<lparr>decimals_call =
        (\<lambda>a. if a = dai_lower \<or> a = dai_checksum \<or> a = gno_lower \<or> a = gno_checksum then Inr 18
             else if a = decimals_only then Inr 6
             else Inl (Error ''call revert exception'')),
      symbol_call =
        (\<lambda>a. if a = dai_lower \<or> a = dai_checksum then Inr ''DAI''
             else if a = gno_lower \<or> a = gno_checksum then Inr ''GNO''
             else Inl (Error ''call revert exception''))\<rparr>"

text \<open>
  The provider before any token list has arrived (the hook starts from \<^verbatim>\<open>new Map()\<close>),
  and once the example list of network 1 is in place.
\<close>

definition empty_state :: provider_state where
  "empty_state = \<lparr>tokenList = Map_new, isLoading = True, calls = []\<rparr>"

definition listed_state :: provider_state where
  "listed_state =
     \<lparr>tokenList = [(Some dai_checksum, dai2), (Some gno_checksum, gno)], isLoading = False,
      calls = []\<rparr>"

section \<open>Unsupported networks\<close>

lemma networkMap_other:
  "chainId \<noteq> 1 \<Longrightarrow> chainId \<noteq> 4 \<Longrightarrow> chainId \<noteq> 100 \<Longrightarrow> map_of networkMap chainId = None"
  by (simp add: networkMap_def)

text \<open>
  C2. For every chain id other than 1, 4 and 100, \<^verbatim>\<open>fetchTokenList\<close> throws an
  \<^verbatim>\<open>Error\<close>: the result is never a token map. The network name in the message is looked
  up in \<^verbatim>\<open>networkMap\<close>, which knows the three supported networks only, so the message
  always names the network \<^verbatim>\<open>undefined\<close>.
\<close>

theorem fetchTokenList_unsupported:
  "chainId \<noteq> 1 \<Longrightarrow> chainId \<noteq> 4 \<Longrightarrow> chainId \<noteq> 100 \<Longrightarrow>
   fetchTokenList env chainId = Inl (Error ''Unimplemented token list for undefined network'')
   \<and> (\<forall>m. fetchTokenList env chainId \<noteq> Inr m)"
  by (simp add: fetchTokenList_def networkMap_other)

theorem fetchTokenList_unsupported_witness:
  "(5::int) \<noteq> 1 \<and> (5::int) \<noteq> 4 \<and> (5::int) \<noteq> 100
   \<and> fetchTokenList example_env 5 = Inl (Error ''Unimplemented token list for undefined network'')"
  using fetchTokenList_unsupported [of 5 example_env] by simp

section \<open>Properties of the map built from a list\<close>

lemma tokenMap_loop_valid:
  "tokenMap_loop ga ts res = Inr m \<Longrightarrow> t \<in> set ts \<Longrightarrow> \<exists>a. ga (address t) = Inr a"
  by (induction ts arbitrary: res) (auto split: sum.splits)

lemma tokenMap_loop_total:
  "\<forall>t\<in>set ts. \<exists>a. ga (address t) = Inr a \<Longrightarrow> \<exists>m. tokenMap_loop ga ts res = Inr m"
proof (induction ts arbitrary: res)
  case Nil
  then show ?case by simp
next
  case (Cons t ts)
  then obtain b where b: "ga (address t) = Inr b" by auto
  from Cons.prems have "\<forall>u\<in>set ts. \<exists>a. ga (address u) = Inr a" by simp
  from Cons.IH [OF this] b show ?case by simp
qed

lemma tokenMap_loop_get:
  "tokenMap_loop ga ts res = Inr m \<Longrightarrow>
   map_of m (Some a) =
     (if \<exists>t\<in>set ts. ga (address t) = Inr a
      then Some (MinimalTokenInfo.truncate (last (filter (\<lambda>t. ga (address t) = Inr a) ts)))
      else map_of res (Some a))"
proof (induction ts arbitrary: res)
  case Nil
  then show ?case by simp
next
  case (Cons t ts)
  then obtain b where b: "ga (address t) = Inr b"
    by (cases "ga (address t)") auto
  with Cons.prems have run: "tokenMap_loop ga ts (Map_set res (Some b) (MinimalTokenInfo.truncate t)) = Inr m"
    by simp
  note ih = Cons.IH [OF run]
  show ?case
  proof (cases "\<exists>u\<in>set ts. ga (address u) = Inr a")
    case True
    then have "filter (\<lambda>t. ga (address t) = Inr a) ts \<noteq> []"
      by (simp add: filter_empty_conv)
    with True ih show ?thesis by simp
  next
    case False
    then have "filter (\<lambda>t. ga (address t) = Inr a) ts = []"
      by (simp add: filter_empty_conv)
    with False ih b show ?thesis
      by (simp add: Map_set_def update_conv')
  qed
qed

lemma tokenMap_loop_none:
  "tokenMap_loop ga ts res = Inr m \<Longrightarrow> map_of m None = map_of res None"
  by (induction ts arbitrary: res) (auto split: sum.splits simp: Map_set_def update_conv')

lemma tokenMap_loop_distinct:
  "tokenMap_loop ga ts res = Inr m \<Longrightarrow> distinct (map fst res) \<Longrightarrow> distinct (map fst m)"
  by (induction ts arbitrary: res) (auto split: sum.splits simp: Map_set_def distinct_update)

lemma length_update_le: "length (AList.update k v al) \<le> Suc (length al)"
  by (induction al) auto

lemma tokenMap_loop_length:
  "tokenMap_loop ga ts res = Inr m \<Longrightarrow> length m \<le> length res + length ts"
proof (induction ts arbitrary: res)
  case Nil
  then show ?case by simp
next
  case (Cons t ts)
  then obtain b where b: "ga (address t) = Inr b"
    by (cases "ga (address t)") auto
  with Cons.prems have run: "tokenMap_loop ga ts (Map_set res (Some b) (MinimalTokenInfo.truncate t)) = Inr m"
    by simp
  have "length (Map_set res (Some b) (MinimalTokenInfo.truncate t)) \<le> Suc (length res)"
    by (simp add: Map_set_def length_update_le)
  with Cons.IH [OF run] show ?case by simp
qed

lemma tokenMap_loop_keys:
  "tokenMap_loop ga ts res = Inr m \<Longrightarrow>
   set (map fst m) = set (map fst res) \<union> {Some a | a t. t \<in> set ts \<and> ga (address t) = Inr a}"
proof (induction ts arbitrary: res)
  case Nil
  then show ?case by simp
next
  case (Cons t ts)
  then obtain b where b: "ga (address t) = Inr b"
    by (cases "ga (address t)") auto
  with Cons.prems have run: "tokenMap_loop ga ts (Map_set res (Some b) (MinimalTokenInfo.truncate t)) = Inr m"
    by simp
  have "set (map fst (Map_set res (Some b) (MinimalTokenInfo.truncate t))) = insert (Some b) (set (map fst res))"
    using dom_update [of "Some b" _ res] by (simp add: Map_set_def)
  with Cons.IH [OF run] b show ?case by auto
qed


text \<open>
  The loop returns a map exactly when \<^verbatim>\<open>getAddress\<close> accepts the address of every
  token of the list; otherwise the first rejected address aborts it.
\<close>

lemma tokenMap_returns_iff:
  "(\<exists>m. tokenMap ga tokens = Inr m) \<longleftrightarrow> (\<forall>t\<in>set tokens. \<exists>a. ga (address t) = Inr a)"
  unfolding tokenMap_def
  using tokenMap_loop_total [of tokens ga Map_new] tokenMap_loop_valid [of ga tokens Map_new]
  by blast

lemma tokenMap_get:
  assumes "tokenMap ga tokens = Inr m" and "t \<in> set tokens" and "ga (address t) = Inr a"
  shows "map_of m (Some a) =
    Some (MinimalTokenInfo.truncate (last (filter (\<lambda>u. ga (address u) = Inr a) tokens)))"
  using tokenMap_loop_get [of ga tokens Map_new m a] assms
  by (auto simp: tokenMap_def)

lemma tokenMap_distinct: "tokenMap ga tokens = Inr m \<Longrightarrow> distinct (map fst m)"
  using tokenMap_loop_distinct [of ga tokens Map_new m]
  by (simp add: tokenMap_def Map_new_def)

lemma tokenMap_length: "tokenMap ga tokens = Inr m \<Longrightarrow> length m \<le> length tokens"
  using tokenMap_loop_length [of ga tokens Map_new m]
  by (simp add: tokenMap_def Map_new_def)

lemma tokenMap_keys:
  "tokenMap ga tokens = Inr m \<Longrightarrow>
   set (map fst m) = {Some a | a t. t \<in> set tokens \<and> ga (address t) = Inr a}"
  using tokenMap_loop_keys [of ga tokens Map_new m]
  by (simp add: tokenMap_def Map_new_def)

lemma address_truncate: "address (MinimalTokenInfo.truncate t) = address t"
  by (simp add: MinimalTokenInfo.truncate_def)

lemma tokenMap_entry:
  assumes run: "tokenMap ga tokens = Inr m" and kv: "(k, v) \<in> set m"
  shows "\<exists>a. ga (address v) = Inr a \<and> k = Some a \<and> (\<exists>t\<in>set tokens. v = MinimalTokenInfo.truncate t)"
proof -
  from kv have "k \<in> set (map fst m)" by force
  with tokenMap_keys [OF run] obtain a t
    where k: "k = Some a" and t: "t \<in> set tokens" and a: "ga (address t) = Inr a"
    by auto
  let ?fs = "filter (\<lambda>u. ga (address u) = Inr a) tokens"
  from t a have ne: "?fs \<noteq> []" by (auto simp: filter_empty_conv)
  then have "last ?fs \<in> set ?fs" by (rule last_in_set)
  then have l: "last ?fs \<in> set tokens" "ga (address (last ?fs)) = Inr a" by auto
  from tokenMap_distinct [OF run] kv have "map_of m k = Some v" by simp
  with tokenMap_get [OF run t a] k have "v = MinimalTokenInfo.truncate (last ?fs)" by simp
  with l k show ?thesis by (auto simp: address_truncate)
qed

text \<open>
  C5. Whenever \<^verbatim>\<open>tokenMap\<close> returns a map, every token of the list has its checksummed
  address among the keys, and every entry of the map is some token of the list stored
  under \<^verbatim>\<open>getAddress\<close> of the entry's own address field. The same holds for every map
  that \<^verbatim>\<open>fetchTokenList\<close> returns.
\<close>

theorem tokenMap_keyed_by_checksum:
  "(tokenMap ga tokens = Inr m \<longrightarrow>
      (\<forall>t\<in>set tokens. \<exists>a. ga (address t) = Inr a \<and> Map_has m (Some a)) \<and>
      (\<forall>(k, v)\<in>set m. \<exists>a. ga (address v) = Inr a \<and> k = Some a
                         \<and> (\<exists>t\<in>set tokens. v = MinimalTokenInfo.truncate t)))
   \<and> (fetchTokenList (env :: 'y env) chainId = Inr m' \<longrightarrow>
      (\<forall>(k, v)\<in>set m'. \<exists>a. getAddress env (address v) = Inr a \<and> k = Some a))"
proof (intro conjI impI)
  assume run: "tokenMap ga tokens = Inr m"
  show "\<forall>t\<in>set tokens. \<exists>a. ga (address t) = Inr a \<and> Map_has m (Some a)"
  proof
    fix t assume t: "t \<in> set tokens"
    with run obtain a where a: "ga (address t) = Inr a"
      using tokenMap_returns_iff [of ga tokens] by blast
    with t tokenMap_keys [OF run] have "Some a \<in> set (map fst m)" by blast
    with a show "\<exists>a. ga (address t) = Inr a \<and> Map_has m (Some a)"
      by (auto simp: Map_has_def)
  qed
  show "\<forall>(k, v)\<in>set m. \<exists>a. ga (address v) = Inr a \<and> k = Some a
                         \<and> (\<exists>t\<in>set tokens. v = MinimalTokenInfo.truncate t)"
    using tokenMap_entry [OF run] by blast
next
  assume run: "fetchTokenList env chainId = Inr m'"
  then obtain tokens :: "'y TokenInfo list" where "tokenMap (getAddress env) tokens = Inr m'"
    by (auto simp: fetchTokenList_def split: if_splits sum.splits)
  from tokenMap_entry [OF this]
  show "\<forall>(k, v)\<in>set m'. \<exists>a. getAddress env (address v) = Inr a \<and> k = Some a"
    by blast
qed

text \<open>
  On the example list the two spellings of the DAI address meet in one key, which keeps
  the second token.
\<close>

lemma example_tokenMap:
  "tokenMap example_getAddress [dai, gno, dai2]
     = Inr [(Some dai_checksum, dai2), (Some gno_checksum, gno)]"
  by (simp add: tokenMap_def Map_new_def Map_set_def example_getAddress_def dai_def gno_def
        dai2_def dai_lower_def dai_checksum_def gno_lower_def gno_checksum_def
        MinimalTokenInfo.truncate_def)

lemma example_fetchTokenList:
  "fetchTokenList example_env 1 = Inr [(Some dai_checksum, dai2), (Some gno_checksum, gno)]"
  by (simp add: fetchTokenList_def example_env_def example_tokenMap)

theorem tokenMap_keyed_by_checksum_witness:
  "tokenMap example_getAddress [dai, gno, dai2]
     = Inr [(Some dai_checksum, dai2), (Some gno_checksum, gno)]
   \<and> fetchTokenList example_env 1 = Inr [(Some dai_checksum, dai2), (Some gno_checksum, gno)]
   \<and> (\<exists>a. example_getAddress (address dai) = Inr a
          \<and> Map_has [(Some dai_checksum, dai2), (Some gno_checksum, gno)] (Some a))
   \<and> (\<exists>a. example_getAddress (address dai2) = Inr a \<and> Some dai_checksum = Some a)
   \<and> (\<exists>a. getAddress example_env (address gno) = Inr a \<and> Some gno_checksum = Some a)"
  using tokenMap_keyed_by_checksum
          [of example_getAddress "[dai, gno, dai2]"
              "[(Some dai_checksum, dai2), (Some gno_checksum, gno)]" example_env 1
              "[(Some dai_checksum, dai2), (Some gno_checksum, gno)]"]
        example_tokenMap example_fetchTokenList
  by simp

text \<open>
  C10. When one or more tokens of the list have addresses with the same checksummed form
  \<open>a\<close>, the map that \<^verbatim>\<open>tokenMap\<close> returns holds under \<open>a\<close> the last of them, so later
  tokens overwrite earlier ones. The keys of the map are distinct and its size is at most
  the length of the list.
\<close>

theorem tokenMap_last_wins:
  "tokenMap ga tokens = Inr m \<Longrightarrow> t \<in> set tokens \<Longrightarrow> ga (address t) = Inr a \<Longrightarrow>
   Map_get m (Some a)
     = Some (MinimalTokenInfo.truncate (last (filter (\<lambda>u. ga (address u) = Inr a) tokens)))
   \<and> distinct (Map_keys m) \<and> Map_size m \<le> length tokens"
  by (simp add: Map_get_def Map_keys_def Map_size_def tokenMap_get tokenMap_distinct
        tokenMap_length)

theorem tokenMap_last_wins_witness:
  "tokenMap example_getAddress [dai, gno, dai2]
     = Inr [(Some dai_checksum, dai2), (Some gno_checksum, gno)]
   \<and> dai \<in> set [dai, gno, dai2]
   \<and> example_getAddress (address dai) = Inr dai_checksum
   \<and> last (filter (\<lambda>u. example_getAddress (address u) = Inr dai_checksum) [dai, gno, dai2]) = dai2
   \<and> Map_get [(Some dai_checksum, dai2), (Some gno_checksum, gno)] (Some dai_checksum) = Some dai2
   \<and> Map_size [(Some dai_checksum, dai2), (Some gno_checksum, gno)] \<le> length [dai, gno, dai2]"
proof -
  have a: "example_getAddress (address dai) = Inr dai_checksum"
    by (simp add: example_getAddress_def dai_def)
  have l: "last (filter (\<lambda>u. example_getAddress (address u) = Inr dai_checksum) [dai, gno, dai2]) = dai2"
    by (simp add: example_getAddress_def dai_def gno_def dai2_def dai_lower_def
          dai_checksum_def gno_lower_def gno_checksum_def)
  have t: "dai \<in> set [dai, gno, dai2]" by simp
  from tokenMap_last_wins [OF example_tokenMap t a] l a example_tokenMap
  show ?thesis by (simp add: MinimalTokenInfo.truncate_def dai2_def)
qed

section \<open>The lookup\<close>

lemma Map_has_get: "Map_has m k \<Longrightarrow> \<exists>v. Map_get m k = Some v"
  unfolding Map_has_def Map_get_def
  by (cases "map_of m k") (auto simp: map_of_eq_None_iff)

lemma Map_get_set: "Map_get (Map_set m k v) k = Some v"
  by (simp add: Map_get_def Map_set_def update_conv')

lemma Map_has_set: "Map_has (Map_set m k v) k"
  using dom_update [of k v m] by (simp add: Map_has_def Map_set_def)

lemma Map_set_new: "\<not> Map_has m k \<Longrightarrow> Map_set m k v = m @ [(k, v)]"
  unfolding Map_has_def Map_set_def
  by (induction m) auto

lemma getTokenInfo_hit:
  "Map_has (tokenList s) (Some a) \<Longrightarrow> getTokenInfo c s a = (Map_get (tokenList s) (Some a), s)"
  by (simp add: getTokenInfo_def)

lemma getTokenInfo_miss_decimals:
  "\<not> Map_has (tokenList s) (Some a) \<Longrightarrow> decimals_call c a = Inr d \<Longrightarrow>
   getTokenInfo c s a =
     (Some \<lparr>decimals = d, address = a, symbol = catch_undefined (symbol_call c a), logoURI = None\<rparr>,
      s\<lparr>calls := calls s @ [DecimalsCall a, SymbolCall a],
        tokenList := Map_set (tokenList s) (Some a)
          \<lparr>decimals = d, address = a, symbol = catch_undefined (symbol_call c a), logoURI = None\<rparr>\<rparr>)"
  by (simp add: getTokenInfo_def Let_def)

lemma getTokenInfo_miss_no_decimals:
  "\<not> Map_has (tokenList s) (Some a) \<Longrightarrow> decimals_call c a = Inl e \<Longrightarrow>
   getTokenInfo c s a = (None, s\<lparr>calls := calls s @ [DecimalsCall a, SymbolCall a]\<rparr>)"
  by (simp add: getTokenInfo_def Let_def)

text \<open>
  C1. \<^verbatim>\<open>getTokenInfo\<close> is a lookup with fallback. For an address that is a key of the map
  it returns the stored entry and leaves the state as it is, the log of contract calls
  included: the contract is not queried. For an address that is not a key it calls
  \<^verbatim>\<open>decimals()\<close> and \<^verbatim>\<open>symbol()\<close> on the contract, and when \<^verbatim>\<open>decimals()\<close> resolves it
  returns the entry made of the answers, stores it in the map under the address, and a
  second call for the same address is answered from the map.
\<close>

theorem getTokenInfo_lookup_with_fallback:
  "(Map_has (tokenList s) (Some a) \<longrightarrow>
      (\<exists>v. Map_get (tokenList s) (Some a) = Some v \<and> getTokenInfo c s a = (Some v, s)))
   \<and> (\<not> Map_has (tokenList s) (Some a) \<longrightarrow>
      calls (snd (getTokenInfo c s a)) = calls s @ [DecimalsCall a, SymbolCall a]
      \<and> (\<forall>d. decimals_call c a = Inr d \<longrightarrow>
            (\<exists>entry s'. getTokenInfo c s a = (Some entry, s')
               \<and> entry = \<lparr>decimals = d, address = a,
                           symbol = catch_undefined (symbol_call c a), logoURI = None\<rparr>
               \<and> tokenList s' = Map_set (tokenList s) (Some a) entry
               \<and> Map_get (tokenList s') (Some a) = Some entry
               \<and> getTokenInfo c s' a = (Some entry, s'))))"
proof (intro conjI impI allI)
  assume h: "Map_has (tokenList s) (Some a)"
  from Map_has_get [OF h] getTokenInfo_hit [OF h, of c]
  show "\<exists>v. Map_get (tokenList s) (Some a) = Some v \<and> getTokenInfo c s a = (Some v, s)"
    by auto
next
  assume h: "\<not> Map_has (tokenList s) (Some a)"
  show "calls (snd (getTokenInfo c s a)) = calls s @ [DecimalsCall a, SymbolCall a]"
  proof (cases "decimals_call c a")
    case (Inl e)
    from getTokenInfo_miss_no_decimals [OF h Inl] show ?thesis by simp
  next
    case (Inr d)
    from getTokenInfo_miss_decimals [OF h Inr] show ?thesis by simp
  qed
next
  fix d
  assume h: "\<not> Map_has (tokenList s) (Some a)" and d: "decimals_call c a = Inr d"
  let ?entry = "\<lparr>decimals = d, address = a, symbol = catch_undefined (symbol_call c a),
                  logoURI = None\<rparr>"
  let ?s' = "s\<lparr>calls := calls s @ [DecimalsCall a, SymbolCall a],
               tokenList := Map_set (tokenList s) (Some a) ?entry\<rparr>"
  have run: "getTokenInfo c s a = (Some ?entry, ?s')"
    by (rule getTokenInfo_miss_decimals [OF h d])
  have tl: "tokenList ?s' = Map_set (tokenList s) (Some a) ?entry" by simp
  have get: "Map_get (tokenList ?s') (Some a) = Some ?entry"
    by (simp add: Map_get_set)
  have "Map_has (tokenList ?s') (Some a)" by (simp add: Map_has_set)
  from getTokenInfo_hit [OF this, of c] get
  have again: "getTokenInfo c ?s' a = (Some ?entry, ?s')" by simp
  from run tl get again
  show "\<exists>entry s'. getTokenInfo c s a = (Some entry, s')
               \<and> entry = \<lparr>decimals = d, address = a,
                           symbol = catch_undefined (symbol_call c a), logoURI = None\<rparr>
               \<and> tokenList s' = Map_set (tokenList s) (Some a) entry
               \<and> Map_get (tokenList s') (Some a) = Some entry
               \<and> getTokenInfo c s' a = (Some entry, s')"
    by blast
qed

text \<open>The example states, evaluated.\<close>

lemmas example_strings = dai_lower_def dai_checksum_def gno_lower_def gno_checksum_def
  zero_address_def decimals_only_def

lemma listed_has_dai_checksum: "Map_has (tokenList listed_state) (Some dai_checksum)"
  by (simp add: listed_state_def Map_has_def)

lemma listed_lacks_dai_lower: "\<not> Map_has (tokenList listed_state) (Some dai_lower)"
  by (simp add: listed_state_def Map_has_def example_strings)

lemma example_decimals_dai_lower: "decimals_call example_erc20 dai_lower = Inr 18"
  by (simp add: example_erc20_def)

lemma example_symbol_dai_lower: "symbol_call example_erc20 dai_lower = Inr ''DAI''"
  by (simp add: example_erc20_def)

theorem getTokenInfo_lookup_with_fallback_witness:
  "Map_has (tokenList listed_state) (Some dai_checksum)
   \<and> getTokenInfo example_erc20 listed_state dai_checksum = (Some dai2, listed_state)
   \<and> \<not> Map_has (tokenList listed_state) (Some dai_lower)
   \<and> decimals_call example_erc20 dai_lower = Inr 18
   \<and> calls (snd (getTokenInfo example_erc20 listed_state dai_lower))
       = [DecimalsCall dai_lower, SymbolCall dai_lower]
   \<and> fst (getTokenInfo example_erc20 listed_state dai_lower) = Some dai
   \<and> Map_get (tokenList (snd (getTokenInfo example_erc20 listed_state dai_lower))) (Some dai_lower)
       = Some dai"
proof -
  have g: "Map_get (tokenList listed_state) (Some dai_checksum) = Some dai2"
    by (simp add: listed_state_def Map_get_def)
  have c0: "calls listed_state = []" by (simp add: listed_state_def)
  have e: "\<lparr>decimals = 18, address = dai_lower,
             symbol = catch_undefined (symbol_call example_erc20 dai_lower), logoURI = None\<rparr> = dai"
    by (simp add: example_symbol_dai_lower dai_def)
  from getTokenInfo_lookup_with_fallback [of listed_state dai_checksum example_erc20]
    listed_has_dai_checksum g
  have hit: "getTokenInfo example_erc20 listed_state dai_checksum = (Some dai2, listed_state)"
    by auto
  from getTokenInfo_lookup_with_fallback [of listed_state dai_lower example_erc20]
    listed_lacks_dai_lower example_decimals_dai_lower c0 e
  have miss: "calls (snd (getTokenInfo example_erc20 listed_state dai_lower))
       = [DecimalsCall dai_lower, SymbolCall dai_lower]
     \<and> fst (getTokenInfo example_erc20 listed_state dai_lower) = Some dai
     \<and> Map_get (tokenList (snd (getTokenInfo example_erc20 listed_state dai_lower))) (Some dai_lower)
       = Some dai"
    by auto
  from hit miss listed_has_dai_checksum listed_lacks_dai_lower example_decimals_dai_lower
  show ?thesis by simp
qed


lemma example_getTokenInfo_dai_lower:
  "getTokenInfo example_erc20 listed_state dai_lower =
     (Some dai,
      listed_state\<lparr>calls := [DecimalsCall dai_lower, SymbolCall dai_lower],
        tokenList := [(Some dai_checksum, dai2), (Some gno_checksum, gno), (Some dai_lower, dai)]\<rparr>)"
proof -
  have "Map_set (tokenList listed_state) (Some dai_lower) dai
          = [(Some dai_checksum, dai2), (Some gno_checksum, gno), (Some dai_lower, dai)]"
    using Map_set_new [OF listed_lacks_dai_lower, of dai] by (simp add: listed_state_def)
  with getTokenInfo_miss_decimals [OF listed_lacks_dai_lower example_decimals_dai_lower]
  show ?thesis
    by (simp add: example_symbol_dai_lower dai_def listed_state_def)
qed

text \<open>
  C4. \<^verbatim>\<open>getTokenInfo\<close> changes the map only when the contract's \<^verbatim>\<open>decimals()\<close> resolved,
  and every entry the call adds carries the value that \<^verbatim>\<open>decimals()\<close> resolved to, sits
  under the address asked for, and is the entry returned.
\<close>

theorem getTokenInfo_caches_only_with_decimals:
  "getTokenInfo c s a = (r, s') \<Longrightarrow>
   (tokenList s' \<noteq> tokenList s \<longrightarrow> (\<exists>d. decimals_call c a = Inr d))
   \<and> (\<forall>(k, v)\<in>set (tokenList s'). (k, v) \<notin> set (tokenList s) \<longrightarrow>
         decimals_call c a = Inr (decimals v) \<and> k = Some a \<and> r = Some v)"
proof (cases "Map_has (tokenList s) (Some a)")
  case True
  assume "getTokenInfo c s a = (r, s')"
  with getTokenInfo_hit [OF True, of c] have "s' = s" by simp
  then show ?thesis by auto
next
  case False
  assume run: "getTokenInfo c s a = (r, s')"
  show ?thesis
  proof (cases "decimals_call c a")
    case (Inl e)
    with getTokenInfo_miss_no_decimals [OF False Inl] run
    have "tokenList s' = tokenList s" by auto
    then show ?thesis by auto
  next
    case (Inr d)
    let ?entry = "\<lparr>decimals = d, address = a, symbol = catch_undefined (symbol_call c a),
                    logoURI = None\<rparr>"
    from getTokenInfo_miss_decimals [OF False Inr] run
    have r: "r = Some ?entry" and "tokenList s' = Map_set (tokenList s) (Some a) ?entry"
      by auto
    with Map_set_new [OF False] have "tokenList s' = tokenList s @ [(Some a, ?entry)]"
      by simp
    with r Inr show ?thesis by auto
  qed
qed

theorem getTokenInfo_caches_only_with_decimals_witness:
  "getTokenInfo example_erc20 listed_state dai_lower =
     (Some dai,
      listed_state\<lparr>calls := [DecimalsCall dai_lower, SymbolCall dai_lower],
        tokenList := [(Some dai_checksum, dai2), (Some gno_checksum, gno), (Some dai_lower, dai)]\<rparr>)
   \<and> [(Some dai_checksum, dai2), (Some gno_checksum, gno), (Some dai_lower, dai)]
        \<noteq> tokenList listed_state
   \<and> (Some dai_lower, dai) \<notin> set (tokenList listed_state)
   \<and> decimals_call example_erc20 dai_lower = Inr (decimals dai)"
proof -
  have new: "(Some dai_lower, dai) \<notin> set (tokenList listed_state)"
    by (simp add: listed_state_def example_strings)
  have ne: "[(Some dai_checksum, dai2), (Some gno_checksum, gno), (Some dai_lower, dai)]
        \<noteq> tokenList listed_state"
    by (simp add: listed_state_def)
  from getTokenInfo_caches_only_with_decimals [OF example_getTokenInfo_dai_lower] new
  have "decimals_call example_erc20 dai_lower = Inr (decimals dai)" by simp
  with example_getTokenInfo_dai_lower new ne show ?thesis by simp
qed

text \<open>
  C8. For an address that is not a key of the map, when the contract's \<^verbatim>\<open>decimals()\<close>
  call rejects, \<^verbatim>\<open>getTokenInfo\<close> returns \<^verbatim>\<open>undefined\<close> and the map is as before.
\<close>

theorem getTokenInfo_decimals_failure:
  "\<not> Map_has (tokenList s) (Some a) \<Longrightarrow> decimals_call c a = Inl e \<Longrightarrow>
   fst (getTokenInfo c s a) = None \<and> tokenList (snd (getTokenInfo c s a)) = tokenList s"
  by (simp add: getTokenInfo_miss_no_decimals)

theorem getTokenInfo_decimals_failure_witness:
  "\<not> Map_has (tokenList listed_state) (Some zero_address)
   \<and> decimals_call example_erc20 zero_address = Inl (Error ''call revert exception'')
   \<and> fst (getTokenInfo example_erc20 listed_state zero_address) = None
   \<and> tokenList (snd (getTokenInfo example_erc20 listed_state zero_address))
       = [(Some dai_checksum, dai2), (Some gno_checksum, gno)]"
proof -
  have h: "\<not> Map_has (tokenList listed_state) (Some zero_address)"
    by (simp add: listed_state_def Map_has_def example_strings)
  have d: "decimals_call example_erc20 zero_address = Inl (Error ''call revert exception'')"
    by (simp add: example_erc20_def example_strings)
  from getTokenInfo_decimals_failure [OF h d] h d show ?thesis
    by (simp add: listed_state_def)
qed

text \<open>
  C9. For an address that is not a key of the map, when \<^verbatim>\<open>decimals()\<close> resolves and
  \<^verbatim>\<open>symbol()\<close> rejects, \<^verbatim>\<open>getTokenInfo\<close> returns and stores an entry with the decimals,
  the address, no symbol and no logo URI. Whether an entry is returned depends on the
  \<^verbatim>\<open>decimals()\<close> call alone.
\<close>

theorem getTokenInfo_symbol_failure:
  "\<not> Map_has (tokenList s) (Some a) \<Longrightarrow>
   (\<forall>d e. decimals_call c a = Inr d \<and> symbol_call c a = Inl e \<longrightarrow>
      fst (getTokenInfo c s a)
        = Some \<lparr>decimals = d, address = a, symbol = None, logoURI = None\<rparr>
      \<and> tokenList (snd (getTokenInfo c s a))
        = Map_set (tokenList s) (Some a) \<lparr>decimals = d, address = a, symbol = None, logoURI = None\<rparr>
      \<and> Map_get (tokenList (snd (getTokenInfo c s a))) (Some a)
        = Some \<lparr>decimals = d, address = a, symbol = None, logoURI = None\<rparr>)
   \<and> ((fst (getTokenInfo c s a) \<noteq> None) = (\<exists>d. decimals_call c a = Inr d))"
proof -
  assume h: "\<not> Map_has (tokenList s) (Some a)"
  have cached: "fst (getTokenInfo c s a)
        = Some \<lparr>decimals = d, address = a, symbol = None, logoURI = None\<rparr>
      \<and> tokenList (snd (getTokenInfo c s a))
        = Map_set (tokenList s) (Some a) \<lparr>decimals = d, address = a, symbol = None, logoURI = None\<rparr>
      \<and> Map_get (tokenList (snd (getTokenInfo c s a))) (Some a)
        = Some \<lparr>decimals = d, address = a, symbol = None, logoURI = None\<rparr>"
    if "decimals_call c a = Inr d \<and> symbol_call c a = Inl e" for d e
  proof -
    from that have d: "decimals_call c a = Inr d" and e: "symbol_call c a = Inl e"
      by simp_all
    from getTokenInfo_miss_decimals [OF h d] e show ?thesis
      by (simp add: Map_get_set)
  qed
  have decides: "(fst (getTokenInfo c s a) \<noteq> None) = (\<exists>d. decimals_call c a = Inr d)"
  proof (cases "decimals_call c a")
    case (Inl e)
    with getTokenInfo_miss_no_decimals [OF h Inl] show ?thesis by simp
  next
    case (Inr d)
    with getTokenInfo_miss_decimals [OF h Inr] show ?thesis by simp
  qed
  from cached decides show ?thesis by blast
qed

theorem getTokenInfo_symbol_failure_witness:
  "\<not> Map_has (tokenList empty_state) (Some decimals_only)
   \<and> decimals_call example_erc20 decimals_only = Inr 6
   \<and> symbol_call example_erc20 decimals_only = Inl (Error ''call revert exception'')
   \<and> fst (getTokenInfo example_erc20 empty_state decimals_only)
       = Some \<lparr>decimals = 6, address = decimals_only, symbol = None, logoURI = None\<rparr>
   \<and> tokenList (snd (getTokenInfo example_erc20 empty_state decimals_only))
       = [(Some decimals_only, \<lparr>decimals = 6, address = decimals_only, symbol = None, logoURI = None\<rparr>)]"
proof -
  have h: "\<not> Map_has (tokenList empty_state) (Some decimals_only)"
    by (simp add: empty_state_def Map_has_def Map_new_def)
  have d: "decimals_call example_erc20 decimals_only = Inr 6"
    by (simp add: example_erc20_def example_strings)
  have e: "symbol_call example_erc20 decimals_only = Inl (Error ''call revert exception'')"
    by (simp add: example_erc20_def example_strings)
  have m: "Map_set (tokenList empty_state) (Some decimals_only) v = [(Some decimals_only, v)]" for v
    by (simp add: empty_state_def Map_set_def Map_new_def)
  from getTokenInfo_symbol_failure [OF h, of example_erc20] h d e m show ?thesis
    by simp
qed

section \<open>The source of each network\<close>

text \<open>
  C6. \<^verbatim>\<open>fetchTokenList\<close> takes its tokens from the list fetched at the coingecko URL for
  chain id 1, from the bundled rinkeby list for chain id 4 and from the bundled xdai list
  for chain id 100, and returns \<^verbatim>\<open>tokenMap\<close> of that list. A fetch that rejects makes
  the call for chain id 1 reject with the same error.
\<close>

theorem fetchTokenList_sources:
  "(\<forall>tokens. fetch_tokens env ''https://tokens.coingecko.com/uniswap/all.json'' = Inr tokens \<longrightarrow>
      fetchTokenList env 1 = tokenMap (getAddress env) tokens)
   \<and> (\<forall>e. fetch_tokens env ''https://tokens.coingecko.com/uniswap/all.json'' = Inl e \<longrightarrow>
      fetchTokenList env 1 = Inl e)
   \<and> fetchTokenList env 4 = tokenMap (getAddress env) (rinkeby env)
   \<and> fetchTokenList env 100 = tokenMap (getAddress env) (xdaiTokens env)"
  by (simp add: fetchTokenList_def mainnetTokenURL_def)

lemma example_tokenMap_gno:
  "tokenMap example_getAddress [gno] = Inr [(Some gno_checksum, gno)]"
  by (simp add: tokenMap_def Map_new_def Map_set_def example_getAddress_def gno_def
        example_strings MinimalTokenInfo.truncate_def)

lemma example_tokenMap_dai2:
  "tokenMap example_getAddress [dai2] = Inr [(Some dai_checksum, dai2)]"
  by (simp add: tokenMap_def Map_new_def Map_set_def example_getAddress_def dai2_def
        example_strings MinimalTokenInfo.truncate_def)

theorem fetchTokenList_sources_witness:
  "fetch_tokens example_env ''https://tokens.coingecko.com/uniswap/all.json'' = Inr [dai, gno, dai2]
   \<and> fetchTokenList example_env 1 = Inr [(Some dai_checksum, dai2), (Some gno_checksum, gno)]
   \<and> fetchTokenList example_env 4 = Inr [(Some gno_checksum, gno)]
   \<and> fetchTokenList example_env 100 = Inr [(Some dai_checksum, dai2)]"
proof -
  have f: "fetch_tokens example_env ''https://tokens.coingecko.com/uniswap/all.json''
             = Inr [dai, gno, dai2]"
    by (simp add: example_env_def mainnetTokenURL_def)
  have g: "getAddress example_env = example_getAddress" by (simp add: example_env_def)
  have r: "rinkeby example_env = [gno]" and x: "xdaiTokens example_env = [dai2]"
    by (simp_all add: example_env_def)
  from fetchTokenList_sources [of example_env] f g r x
    example_tokenMap example_tokenMap_gno example_tokenMap_dai2
  show ?thesis by simp
qed

section \<open>Checksummed keys\<close>

text \<open>
  The fallback stores the entry under the address as the caller wrote it. When that
  spelling is not the checksummed one, the new key is not checksummed.
\<close>

lemma getTokenInfo_key_not_checksummed:
  assumes "\<not> Map_has (tokenList s) (Some a)" and "decimals_call c a = Inr d"
    and "ga a \<noteq> Inr a"
  shows "\<not> list_all (checksummed_key ga) (Map_keys (tokenList (snd (getTokenInfo c s a))))"
  using getTokenInfo_miss_decimals [OF assms(1,2)] Map_set_new [OF assms(1)] assms(3)
  by (simp add: Map_keys_def)

text \<open>
  C3. The keys of a map built by \<^verbatim>\<open>tokenMap\<close> are checksummed, and the fallback of
  \<^verbatim>\<open>getTokenInfo\<close> does not keep that: on the map built from the example list, a call
  with the lower-case DAI address misses the entry stored under the checksummed DAI
  address, asks the contract, and adds a third entry whose key is the lower-case string.
\<close>

theorem getTokenInfo_caches_raw_address:
  "tokenMap example_getAddress [dai, gno, dai2] = Inr (tokenList listed_state)
   \<and> list_all (checksummed_key example_getAddress) (Map_keys (tokenList listed_state))
   \<and> example_getAddress dai_lower = Inr dai_checksum
   \<and> fst (getTokenInfo example_erc20 listed_state dai_lower) = Some dai
   \<and> Map_keys (tokenList (snd (getTokenInfo example_erc20 listed_state dai_lower)))
       = [Some dai_checksum, Some gno_checksum, Some dai_lower]
   \<and> \<not> checksummed_key example_getAddress (Some dai_lower)
   \<and> \<not> list_all (checksummed_key example_getAddress)
         (Map_keys (tokenList (snd (getTokenInfo example_erc20 listed_state dai_lower))))"
proof -
  have a: "tokenMap example_getAddress [dai, gno, dai2] = Inr (tokenList listed_state)"
    by (simp add: example_tokenMap listed_state_def)
  have b: "list_all (checksummed_key example_getAddress) (Map_keys (tokenList listed_state))"
    by (simp add: listed_state_def Map_keys_def example_getAddress_def example_strings)
  have c: "example_getAddress dai_lower = Inr dai_checksum"
    by (simp add: example_getAddress_def)
  have d: "\<not> checksummed_key example_getAddress (Some dai_lower)"
    by (simp add: example_getAddress_def example_strings)
  have e: "Map_keys (tokenList (snd (getTokenInfo example_erc20 listed_state dai_lower)))
       = [Some dai_checksum, Some gno_checksum, Some dai_lower]"
    by (simp add: example_getTokenInfo_dai_lower Map_keys_def)
  from a b c d e show ?thesis
    by (simp add: example_getTokenInfo_dai_lower)
qed


text \<open>
  What does hold: \<^verbatim>\<open>tokenMap\<close> yields checksummed keys when \<^verbatim>\<open>getAddress\<close> returns
  its own results unchanged, and \<^verbatim>\<open>getTokenInfo\<close> keeps the keys checksummed when it
  is called with a checksummed address.
\<close>

lemma tokenMap_keys_checksummed:
  assumes idem: "\<And>a b. ga a = Inr b \<Longrightarrow> ga b = Inr b"
    and run: "tokenMap ga tokens = Inr m"
  shows "list_all (checksummed_key ga) (Map_keys m)"
  unfolding list_all_iff Map_keys_def
proof
  fix k assume "k \<in> set (map fst m)"
  with tokenMap_keys [OF run] obtain a
    where "k = Some a" and "\<exists>t\<in>set tokens. ga (address t) = Inr a"
    by auto
  with idem show "checksummed_key ga k" by auto
qed

lemma getTokenInfo_keeps_checksummed:
  assumes inv: "list_all (checksummed_key ga) (Map_keys (tokenList s))"
    and a: "ga a = Inr a"
  shows "list_all (checksummed_key ga) (Map_keys (tokenList (snd (getTokenInfo c s a))))"
proof (cases "Map_has (tokenList s) (Some a)")
  case True
  with inv show ?thesis by (simp add: getTokenInfo_hit)
next
  case False
  show ?thesis
  proof (cases "decimals_call c a")
    case (Inl e)
    with inv show ?thesis by (simp add: getTokenInfo_miss_no_decimals [OF False])
  next
    case (Inr d)
    with inv a show ?thesis
      by (simp add: getTokenInfo_miss_decimals [OF False] Map_set_new [OF False] Map_keys_def)
  qed
qed

section \<open>Cancelling the fetch\<close>

text \<open>A cancelled run stays cancelled, whatever happens to the component.\<close>

lemma runs_callback:
  "runs (callback i s) = (if i < length (runs s) then (runs s)[i := (runs s ! i)\<lparr>isMounted := False\<rparr>] else runs s)"
  by (simp add: callback_def)

lemma length_runs_callback: "length (runs (callback i s)) = length (runs s)"
  by (simp add: callback_def)

lemma length_runs_cleanup: "length (runs (run_cleanup s)) = length (runs s)"
  by (simp add: run_cleanup_def length_runs_callback split: option.splits)

lemma cleanup_keeps:
  "unmounted (run_cleanup s) = unmounted s"
  "deps (run_cleanup s) = deps s"
  "cleanup (run_cleanup s) = cleanup s"
  "tokenList (run_cleanup s) = tokenList s"
  "isLoading (run_cleanup s) = isLoading s"
  by (simp_all add: run_cleanup_def callback_def split: option.splits)

lemma cancelled_callback: "i < length (runs s) \<Longrightarrow> cancelled i (callback i s)"
  by (simp add: cancelled_def callback_def)

lemma cancelled_callback_other: "cancelled i s \<Longrightarrow> cancelled i (callback j s)"
  by (auto simp: cancelled_def callback_def nth_list_update)

lemma cancelled_cleanup: "cancelled i s \<Longrightarrow> cancelled i (run_cleanup s)"
  by (simp add: run_cleanup_def cancelled_callback_other split: option.splits)

lemma cancelled_effect: "cancelled i s \<Longrightarrow> cancelled i (effect c s)"
  by (simp add: cancelled_def effect_def nth_append)

lemma cancelled_then_handler: "cancelled i s \<Longrightarrow> cancelled i (then_handler j result s)"
  by (simp add: cancelled_def then_handler_def)

lemma cancelled_fields:
  "cancelled i (s\<lparr>deps := d, cleanup := k\<rparr>) = cancelled i s"
  "cancelled i (s\<lparr>cleanup := k, unmounted := u\<rparr>) = cancelled i s"
  by (simp_all add: cancelled_def)

lemma cancelled_step: "cancelled i s \<Longrightarrow> cancelled i (step env ev s)"
proof (cases ev)
  case (Render c)
  assume "cancelled i s"
  then have "cancelled i (effect c (run_cleanup s))"
    by (simp add: cancelled_effect cancelled_cleanup)
  with \<open>cancelled i s\<close> Render show ?thesis by (simp add: cancelled_fields)
next
  case Unmount
  assume "cancelled i s"
  with Unmount show ?thesis by (simp add: cancelled_fields cancelled_cleanup)
next
  case (Settle j)
  assume c: "cancelled i s"
  show ?thesis
  proof (cases "j < length (runs s) \<and> \<not> settled (runs s ! j)")
    case False
    with c Settle show ?thesis by auto
  next
    case True
    let ?s1 = "s\<lparr>runs := (runs s)[j := (runs s ! j)\<lparr>settled := True\<rparr>]\<rparr>"
    from c True have "cancelled i ?s1"
      by (cases "i = j") (simp_all add: cancelled_def)
    then have "cancelled i (then_handler j result ?s1)" for result
      by (rule cancelled_then_handler)
    with \<open>cancelled i ?s1\<close> True Settle show ?thesis
      by (simp add: Let_def split: sum.splits)
  qed
qed

lemma cancelled_run: "cancelled i s \<Longrightarrow> cancelled i (run env evs s)"
  by (induction evs arbitrary: s) (simp_all add: cancelled_step)

text \<open>
  The promise of a cancelled run settles without a change to the hook's state; that of
  a run still mounted stores the map it resolved to and ends the loading.
\<close>

lemma settle_cancelled:
  "cancelled i s \<Longrightarrow>
   tokenList (step env (Settle i) s) = tokenList s \<and> isLoading (step env (Settle i) s) = isLoading s"
  by (simp add: cancelled_def then_handler_def Let_def split: sum.splits)

lemma settle_mounted:
  "i < length (runs s) \<Longrightarrow> isMounted (runs s ! i) \<Longrightarrow> \<not> settled (runs s ! i) \<Longrightarrow>
   fetchTokenList env (fetched_chain (runs s ! i)) = Inr result \<Longrightarrow>
   tokenList (step env (Settle i) s) = result \<and> \<not> isLoading (step env (Settle i) s)"
  by (simp add: then_handler_def Let_def)

text \<open>Every component reached from the initial one is well formed.\<close>

lemma well_formed_initial: "well_formed initial"
  by (simp add: well_formed_def initial_def)

lemma well_formed_step: "well_formed s \<Longrightarrow> well_formed (step env ev s)"
proof (cases ev)
  case (Render c)
  assume "well_formed s"
  with Render show ?thesis
    by (simp add: well_formed_def effect_def length_runs_cleanup cleanup_keeps)
next
  case Unmount
  assume "well_formed s"
  with Unmount show ?thesis by (simp add: well_formed_def)
next
  case (Settle j)
  assume "well_formed s"
  with Settle show ?thesis
    by (auto simp: well_formed_def then_handler_def Let_def split: sum.splits option.splits)
qed

lemma well_formed_run: "well_formed s \<Longrightarrow> well_formed (run env evs s)"
  by (induction evs arbitrary: s) (simp_all add: well_formed_step)

text \<open>
  An unmount, and a render with a new chain id, cancel the run whose cleanup function is
  registered.
\<close>

lemma cleanup_cancels:
  assumes wf: "well_formed s" and i: "cleanup s = Some i"
  shows "cancelled i (step env Unmount s)"
    and "deps s \<noteq> Some c \<Longrightarrow> cancelled i (step env (Render c) s)"
proof -
  from wf i have lt: "i < length (runs s)" and m: "\<not> unmounted s"
    by (simp_all add: well_formed_def)
  from i have rc: "run_cleanup s = callback i s" by (simp add: run_cleanup_def)
  from lt have c: "cancelled i (callback i s)" by (rule cancelled_callback)
  from m rc c show "cancelled i (step env Unmount s)"
    by (simp add: cancelled_fields)
  assume "deps s \<noteq> Some c"
  with m rc cancelled_effect [OF c, of c] show "cancelled i (step env (Render c) s)"
    by (simp add: cancelled_fields)
qed

text \<open>
  The chain ids passed to \<^verbatim>\<open>fetchTokenList\<close>, one per run of the effect: a render with
  the chain id of the last run starts no run, a render with another one starts exactly
  one, and a settling promise starts none.
\<close>

lemma remdups_adj_snoc:
  "remdups_adj (cs @ [c]) = (if cs \<noteq> [] \<and> last cs = c then remdups_adj cs else remdups_adj cs @ [c])"
  by (induction cs rule: remdups_adj.induct) auto


lemma chains_update:
  "map fetched_chain (xs[i := (xs ! i)\<lparr>isMounted := b\<rparr>]) = map fetched_chain xs"
  "map fetched_chain (xs[i := (xs ! i)\<lparr>settled := b\<rparr>]) = map fetched_chain xs"
  by (induction xs arbitrary: i; simp split: nat.splits)+

lemma chains_cleanup: "map fetched_chain (runs (run_cleanup s)) = map fetched_chain (runs s)"
  by (simp add: run_cleanup_def callback_def chains_update split: option.splits)

lemma step_settle_keeps:
  "map fetched_chain (runs (step env (Settle j) s)) = map fetched_chain (runs s)"
  "deps (step env (Settle j) s) = deps s"
  "unmounted (step env (Settle j) s) = unmounted s"
  by (simp_all add: then_handler_def Let_def chains_update split: sum.splits)

lemma step_render_same: "deps s = Some c \<Longrightarrow> step env (Render c) s = s"
  by simp

lemma step_render_changed:
  assumes "\<not> unmounted s" and "deps s \<noteq> Some c"
  shows "map fetched_chain (runs (step env (Render c) s)) = map fetched_chain (runs s) @ [c]"
    and "deps (step env (Render c) s) = Some c"
    and "\<not> unmounted (step env (Render c) s)"
  using assms by (simp_all add: effect_def chains_cleanup cleanup_keeps)

lemma fetches_run:
  assumes "\<not> unmounted s"
    and "map fetched_chain (runs s) = remdups_adj cs"
    and "deps s = (if cs = [] then None else Some (last cs))"
    and "Unmount \<notin> set evs"
  shows "map fetched_chain (runs (run env evs s)) = remdups_adj (cs @ renders evs)"
  using assms
proof (induction evs arbitrary: s cs)
  case Nil
  then show ?case by simp
next
  case (Cons ev evs)
  from Cons.prems have rest: "Unmount \<notin> set evs" by simp
  show ?case
  proof (cases ev)
    case (Render c)
    show ?thesis
    proof (cases "deps s = Some c")
      case True
      with Cons.prems have cs: "cs \<noteq> [] \<and> last cs = c" by (auto split: if_splits)
      then have a: "map fetched_chain (runs s) = remdups_adj (cs @ [c])"
        using Cons.prems(2) by (simp add: remdups_adj_snoc)
      have b: "deps s = (if cs @ [c] = [] then None else Some (last (cs @ [c])))"
        using True by simp
      from Cons.IH [OF Cons.prems(1) a b rest] True Render show ?thesis by simp
    next
      case False
      let ?s' = "step env (Render c) s"
      from False Cons.prems have cs: "\<not> (cs \<noteq> [] \<and> last cs = c)" by auto
      from step_render_changed [OF Cons.prems(1) False, of env] Cons.prems(2) cs
      have a: "map fetched_chain (runs ?s') = remdups_adj (cs @ [c])"
        and b: "deps ?s' = (if cs @ [c] = [] then None else Some (last (cs @ [c])))"
        and u: "\<not> unmounted ?s'"
        by (simp_all add: remdups_adj_snoc)
      from Cons.IH [OF u a b rest] Render show ?thesis by simp
    qed
  next
    case Unmount
    with Cons.prems show ?thesis by simp
  next
    case (Settle j)
    let ?s' = "step env (Settle j) s"
    from Cons.prems have u: "\<not> unmounted ?s'"
      and a: "map fetched_chain (runs ?s') = remdups_adj cs"
      and b: "deps ?s' = (if cs = [] then None else Some (last cs))"
      unfolding step_settle_keeps by simp_all
    from Cons.IH [OF u a b rest] Settle show ?thesis by simp
  qed
qed

lemma fetches_initial:
  "Unmount \<notin> set evs \<Longrightarrow>
   map fetched_chain (runs (run env evs initial)) = remdups_adj (renders evs)"
  using fetches_run [of initial "[]" evs env] by (simp add: initial_def)

text \<open>
  C7. In a component reached from the initial one by any events, let run \<open>i\<close> be the run
  whose cleanup function is registered, and let the component be unmounted or rendered
  with a new chain id, which calls that function. Then, after any further events, the
  promise of run \<open>i\<close> settles without changing \<^verbatim>\<open>tokenList\<close> or \<^verbatim>\<open>isLoading\<close>.
  And while the component is mounted, \<^verbatim>\<open>fetchTokenList\<close> is called once for each
  change of the chain id among the renders (the first render included): the chain ids
  of the calls are those of the renders with adjacent repetitions removed.
\<close>

theorem useTokenList_cancellable:
  "(cleanup (run env evs0 initial) = Some i
     \<and> (ev = Unmount \<or> (\<exists>c. ev = Render c \<and> deps (run env evs0 initial) \<noteq> Some c)) \<longrightarrow>
     tokenList (step env (Settle i) (run env evs (step env ev (run env evs0 initial))))
       = tokenList (run env evs (step env ev (run env evs0 initial)))
     \<and> isLoading (step env (Settle i) (run env evs (step env ev (run env evs0 initial))))
       = isLoading (run env evs (step env ev (run env evs0 initial))))
   \<and> (Unmount \<notin> set evs0 \<longrightarrow>
     map fetched_chain (runs (run env evs0 initial)) = remdups_adj (renders evs0))"
proof (intro conjI impI)
  let ?s = "run env evs0 initial"
  assume h: "cleanup ?s = Some i
     \<and> (ev = Unmount \<or> (\<exists>c. ev = Render c \<and> deps ?s \<noteq> Some c))"
  have wf: "well_formed ?s"
    by (rule well_formed_run [OF well_formed_initial])
  from h cleanup_cancels [OF wf] have "cancelled i (step env ev ?s)" by auto
  then have "cancelled i (run env evs (step env ev ?s))" by (rule cancelled_run)
  then show "tokenList (step env (Settle i) (run env evs (step env ev ?s)))
       = tokenList (run env evs (step env ev ?s))"
    and "isLoading (step env (Settle i) (run env evs (step env ev ?s)))
       = isLoading (run env evs (step env ev ?s))"
    using settle_cancelled by blast+
next
  assume "Unmount \<notin> set evs0"
  then show "map fetched_chain (runs (run env evs0 initial)) = remdups_adj (renders evs0)"
    by (rule fetches_initial)
qed

text \<open>
  The example: the component renders twice on network 1, then on network 4; the list of
  network 4 arrives, and then the list of network 1, which is dropped.
\<close>

lemma example_fetch_4: "fetchTokenList example_env 4 = Inr [(Some gno_checksum, gno)]"
  by (simp add: fetchTokenList_def example_env_def example_tokenMap_gno)

lemma example_mounted:
  "run example_env [Render 1, Render 1] initial =
     \<lparr>tokenList = Map_new, isLoading = True,
      runs = [\<lparr>isMounted = True, fetched_chain = 1, settled = False\<rparr>],
      deps = Some 1, cleanup = Some 0, unmounted = False\<rparr>"
  by (simp add: initial_def effect_def run_cleanup_def)

lemma example_switched:
  "run example_env [Settle 1] (step example_env (Render 4)
     \<lparr>tokenList = Map_new, isLoading = True,
      runs = [\<lparr>isMounted = True, fetched_chain = 1, settled = False\<rparr>],
      deps = Some 1, cleanup = Some 0, unmounted = False\<rparr>) =
     \<lparr>tokenList = [(Some gno_checksum, gno)], isLoading = False,
      runs = [\<lparr>isMounted = False, fetched_chain = 1, settled = False\<rparr>,
              \<lparr>isMounted = True, fetched_chain = 4, settled = True\<rparr>],
      deps = Some 4, cleanup = Some 1, unmounted = False\<rparr>"
  by (simp add: effect_def run_cleanup_def callback_def then_handler_def example_fetch_4)

lemma example_late:
  "step example_env (Settle 0)
     \<lparr>tokenList = [(Some gno_checksum, gno)], isLoading = False,
      runs = [\<lparr>isMounted = False, fetched_chain = 1, settled = False\<rparr>,
              \<lparr>isMounted = True, fetched_chain = 4, settled = True\<rparr>],
      deps = Some 4, cleanup = Some 1, unmounted = False\<rparr> =
     \<lparr>tokenList = [(Some gno_checksum, gno)], isLoading = False,
      runs = [\<lparr>isMounted = False, fetched_chain = 1, settled = True\<rparr>,
              \<lparr>isMounted = True, fetched_chain = 4, settled = True\<rparr>],
      deps = Some 4, cleanup = Some 1, unmounted = False\<rparr>"
  by (simp add: then_handler_def example_fetchTokenList)

theorem useTokenList_cancellable_witness:
  "cleanup (run example_env [Render 1, Render 1] initial) = Some 0
   \<and> deps (run example_env [Render 1, Render 1] initial) \<noteq> Some 4
   \<and> fetchTokenList example_env 1 = Inr [(Some dai_checksum, dai2), (Some gno_checksum, gno)]
   \<and> tokenList (step example_env (Settle 0)
        (run example_env [Settle 1]
          (step example_env (Render 4) (run example_env [Render 1, Render 1] initial))))
       = [(Some gno_checksum, gno)]
   \<and> \<not> isLoading (step example_env (Settle 0)
        (run example_env [Settle 1]
          (step example_env (Render 4) (run example_env [Render 1, Render 1] initial))))
   \<and> Unmount \<notin> set [Render 1, Render 1]
   \<and> map fetched_chain (runs (run example_env [Render 1, Render 1] initial)) = [1]"
  using useTokenList_cancellable
          [where env = example_env and ?evs0.0 = "[Render 1, Render 1]" and i = 0
             and ev = "Render 4" and evs = "[Settle 1]"]
    example_fetchTokenList
  unfolding example_mounted example_switched example_late
  by simp

end
